theory Spec2Isabelle
  imports Main "HOL-Library.AList" "HOL-Library.Sublist"
begin

section \<open>Python values handled by the helpers\<close>

text \<open>
  The configuration tree of \<^verbatim>\<open>bumpr/helpers.py\<close> is a Python dictionary with string
  keys whose values are scalars or further dictionaries.  A dictionary is either a plain
  \<^verbatim>\<open>dict\<close> or an instance of the subclass \<^verbatim>\<open>ObjectDict\<close>; the code tells the two apart
  with \<^verbatim>\<open>isinstance\<close>, so the model keeps one constructor for each.  The items of a
  dictionary are an association list in insertion order.  Objects are modelled by their
  value: a configuration tree is a tree, no object is reachable along two paths.
\<close>

datatype py_error =
    KeyError string
  | AttributeError string
  | ValueError string
  | TypeError string
  | OSError string
  | CalledProcessError nat "string list"

datatype scalar = SNone | SBool bool | SInt int | SStr string | SList "string list"

datatype pyval =
    Scalar scalar
  | Dict "(string \<times> pyval) list"
  | ObjDict "(string \<times> pyval) list"

type_synonym items = "(string \<times> pyval) list"

fun is_mapping :: "pyval \<Rightarrow> bool" where
  "is_mapping (Scalar s) = False"
| "is_mapping (Dict d) = True"
| "is_mapping (ObjDict d) = True"

fun mapping_items :: "pyval \<Rightarrow> items" where
  "mapping_items (Scalar s) = []"
| "mapping_items (Dict d) = d"
| "mapping_items (ObjDict d) = d"

abbreviation items_size :: "items \<Rightarrow> nat" where
  "items_size \<equiv> size_list (size_prod (\<lambda>_. 0) size)"

section \<open>The class ObjectDict\<close>

text \<open>
  \<^verbatim>\<open>dict.__setitem__\<close>, reached through \<^verbatim>\<open>super(ObjectDict, self).__setitem__\<close>: an
  existing key keeps its position and takes the new value, a new key is appended.
\<close>

definition dict_setitem :: "items \<Rightarrow> string \<Rightarrow> pyval \<Rightarrow> items" where
  "dict_setitem self key value = AList.update key value self"

text \<open>
  \<^verbatim>\<open>ObjectDict(args)\<close> runs \<^verbatim>\<open>__init__\<close>, that is \<^verbatim>\<open>self.update(args)\<close> on a fresh
  empty object; \<^verbatim>\<open>update\<close> walks the items of \<^verbatim>\<open>dict(args)\<close>, turns a plain dictionary
  into an \<^verbatim>\<open>ObjectDict\<close> and stores it with \<^verbatim>\<open>self[key] = value\<close>; \<^verbatim>\<open>__setitem__\<close>
  makes the same conversion before it calls the inherited method.  The three functions
  return the items of the object they build or mutate.
\<close>

function (sequential) ObjectDict :: "items \<Rightarrow> items"
  and update :: "items \<Rightarrow> items \<Rightarrow> items"
  and setitem :: "items \<Rightarrow> string \<Rightarrow> pyval \<Rightarrow> items"
where
  "ObjectDict args = update [] args"
| "update self [] = self"
| "update self ((key, Dict d) # rest) =
     update (setitem self key (ObjDict (ObjectDict d))) rest"
| "update self ((key, value) # rest) = update (setitem self key value) rest"
| "setitem self key (Dict d) = dict_setitem self key (ObjDict (ObjectDict d))"
| "setitem self key value = dict_setitem self key value"
  by pat_completeness auto
termination
  by (relation "measure (\<lambda>x. case x of
       Inl args \<Rightarrow> 2 * items_size args + 1
     | Inr (Inl (self, args)) \<Rightarrow> 2 * items_size args
     | Inr (Inr (self, key, value)) \<Rightarrow>
         (case value of Dict d \<Rightarrow> 2 * items_size d + 2 | _ \<Rightarrow> 0))")
    auto

text \<open>
  The guard \<^verbatim>\<open>if isinstance(value, dict) and not isinstance(value, ObjectDict):
  value = ObjectDict(value)\<close> that \<^verbatim>\<open>__setattr__\<close>, \<^verbatim>\<open>__setitem__\<close>, \<^verbatim>\<open>update\<close> and
  \<^verbatim>\<open>merge\<close> share.
\<close>

definition as_ObjectDict :: "pyval \<Rightarrow> pyval" where
  "as_ObjectDict value = (case value of Dict d \<Rightarrow> ObjDict (ObjectDict d) | _ \<Rightarrow> value)"

text \<open>\<^verbatim>\<open>self[key]\<close>: the inherited \<^verbatim>\<open>dict.__getitem__\<close> raises \<^verbatim>\<open>KeyError\<close> on a missing key.\<close>

definition getitem :: "items \<Rightarrow> string \<Rightarrow> py_error + pyval" where
  "getitem self key = (case map_of self key of None \<Rightarrow> Inl (KeyError key) | Some v \<Rightarrow> Inr v)"

text \<open>
  Reading an attribute.  Python calls \<^verbatim>\<open>__getattr__\<close> only when the normal lookup finds
  nothing, and the normal lookup finds every name bound in the class body of
  \<^verbatim>\<open>ObjectDict\<close> and every name inherited from \<^verbatim>\<open>dict\<close> and \<^verbatim>\<open>object\<close>.  The first list
  is read off the source; the second belongs to the Python runtime and is a parameter.
  \<^verbatim>\<open>__setattr__\<close> never writes the instance dictionary, so no instance attribute exists.
\<close>

definition ObjectDict_class_body :: "string list" where
  "ObjectDict_class_body =
     [''__init__'', ''__getattr__'', ''__setattr__'', ''__setitem__'', ''update'', ''merge'']"

datatype attribute = Item pyval | ClassAttribute string

definition getattr :: "string list \<Rightarrow> items \<Rightarrow> string \<Rightarrow> py_error + attribute" where
  "getattr inherited self name =
     (if name \<in> set ObjectDict_class_body \<or> name \<in> set inherited
      then Inr (ClassAttribute name)
      else (case getitem self name of Inl e \<Rightarrow> Inl e | Inr v \<Rightarrow> Inr (Item v)))"

text \<open>\<^verbatim>\<open>__setattr__\<close> runs on every attribute assignment: the guard, then \<^verbatim>\<open>self[key] = value\<close>.\<close>

definition setattr :: "items \<Rightarrow> string \<Rightarrow> pyval \<Rightarrow> items" where
  "setattr self key value = setitem self key (as_ObjectDict value)"

text \<open>Building an \<^verbatim>\<open>ObjectDict\<close> never makes a value larger; \<^verbatim>\<open>merge\<close> terminates by it.\<close>

lemma items_size_dict_setitem:
  "items_size (dict_setitem self key v) \<le> items_size self + size v + 2"
  unfolding dict_setitem_def
  by (induction self) auto

lemma items_size_dict_setitem_le:
  "items_size self + size v + 2 \<le> n \<Longrightarrow> items_size (dict_setitem self key v) \<le> n"
  using items_size_dict_setitem [of self key v] by simp

lemma items_size_update:
  "items_size (ObjectDict d) \<le> items_size d"
  "items_size (update self args) \<le> items_size self + items_size args"
  "items_size (setitem self key v) \<le> items_size self + size v + 2"
  by (induction d and self args and self key v rule: ObjectDict_update_setitem.induct)
    (auto intro!: items_size_dict_setitem_le)

lemma items_size_ObjectDict_less:
  "items_size (update [] d) < Suc (Suc (Suc (items_size d + n)))"
  using items_size_update(2) [of "[]" d] by simp

text \<open>
  \<^verbatim>\<open>merge\<close> walks the items of \<^verbatim>\<open>dict(args)\<close>.  A dictionary value is first made an
  \<^verbatim>\<open>ObjectDict\<close>; when \<^verbatim>\<open>key in self\<close> and \<^verbatim>\<open>self[key]\<close> is an \<^verbatim>\<open>ObjectDict\<close>, that
  object is merged in place (its entry keeps its position) and the loop continues;
  in every other case \<^verbatim>\<open>self[key] = value\<close>.
\<close>

function merge :: "items \<Rightarrow> items \<Rightarrow> items" where
  "merge self [] = self"
| "merge self ((key, value) # rest) =
     (case value of
        Scalar s \<Rightarrow> merge (setitem self key value) rest
      | _ \<Rightarrow>
          (let value' = as_ObjectDict value in
           (case map_of self key of
              Some (ObjDict a) \<Rightarrow>
                merge (AList.update key (ObjDict (merge a (mapping_items value'))) self) rest
            | _ \<Rightarrow> merge (setitem self key value') rest)))"
  by pat_completeness auto
termination
  by (relation "measure (\<lambda>(self, args). items_size args)")
    (auto simp: as_ObjectDict_def items_size_ObjectDict_less)

text \<open>One turn of the loop of \<^verbatim>\<open>merge\<close>, and the value it leaves at the key.\<close>

definition merge_item :: "items \<Rightarrow> string \<Rightarrow> pyval \<Rightarrow> items" where
  "merge_item self key v =
     (if is_mapping v
      then (case map_of self key of
              Some (ObjDict a) \<Rightarrow>
                AList.update key (ObjDict (merge a (mapping_items (as_ObjectDict v)))) self
            | _ \<Rightarrow> setitem self key (as_ObjectDict v))
      else setitem self key v)"

definition merge_value :: "pyval option \<Rightarrow> pyval \<Rightarrow> pyval" where
  "merge_value old v =
     (if is_mapping v
      then (case old of
              Some (ObjDict a) \<Rightarrow> ObjDict (merge a (mapping_items (as_ObjectDict v)))
            | _ \<Rightarrow> as_ObjectDict v)
      else v)"

subsection \<open>Predicates on configuration trees\<close>

text \<open>
  The class invariant: every dictionary reachable through the values of an
  \<^verbatim>\<open>ObjectDict\<close> is an \<^verbatim>\<open>ObjectDict\<close>.  \<open>nested_ObjectDict_items\<close> states it of the items
  of an \<^verbatim>\<open>ObjectDict\<close>.
\<close>

function nested_ObjectDict :: "pyval \<Rightarrow> bool"
  and nested_ObjectDict_items :: "items \<Rightarrow> bool"
where
  "nested_ObjectDict (Scalar s) = True"
| "nested_ObjectDict (Dict d) = False"
| "nested_ObjectDict (ObjDict d) = nested_ObjectDict_items d"
| "nested_ObjectDict_items [] = True"
| "nested_ObjectDict_items ((key, value) # rest) =
     (nested_ObjectDict value \<and> nested_ObjectDict_items rest)"
  by pat_completeness auto
termination
  by (relation "measure (\<lambda>x. case x of Inl v \<Rightarrow> size v | Inr d \<Rightarrow> items_size d)") auto

text \<open>
  An argument of an operation is any Python value; the \<^verbatim>\<open>ObjectDict\<close> objects that occur
  in it were built earlier.  \<open>sound\<close> says that each of them has the class invariant
  (a plain dictionary may hold anything sound).
\<close>

function sound :: "pyval \<Rightarrow> bool" and sound_items :: "items \<Rightarrow> bool" where
  "sound (Scalar s) = True"
| "sound (Dict d) = sound_items d"
| "sound (ObjDict d) = nested_ObjectDict_items d"
| "sound_items [] = True"
| "sound_items ((key, value) # rest) = (sound value \<and> sound_items rest)"
  by pat_completeness auto
termination
  by (relation "measure (\<lambda>x. case x of Inl v \<Rightarrow> size v | Inr d \<Rightarrow> items_size d)") auto

text \<open>
  A Python dictionary holds a key once.  \<open>valid\<close> says that an association list and
  those nested in it stand for dictionaries.
\<close>

function valid :: "pyval \<Rightarrow> bool" and valid_items :: "items \<Rightarrow> bool" where
  "valid (Scalar s) = True"
| "valid (Dict d) = valid_items d"
| "valid (ObjDict d) = valid_items d"
| "valid_items [] = True"
| "valid_items ((key, value) # rest) =
     (map_of rest key = None \<and> valid value \<and> valid_items rest)"
  by pat_completeness auto
termination
  by (relation "measure (\<lambda>x. case x of Inl v \<Rightarrow> size v | Inr d \<Rightarrow> items_size d)") auto

text \<open>
  A key path \<open>[k1, ..., kn]\<close> is present in a tree when \<open>t[k1]...[kn]\<close> exists.
  \<open>merged_recursively t m p\<close> says that \<^verbatim>\<open>t.merge(m)\<close> reaches the dictionary that holds
  the last key of \<open>p\<close> by recursive merges only, or leaves it untouched: along the path,
  \<open>m\<close> either lacks the key, or brings a dictionary where \<open>t\<close> holds an \<^verbatim>\<open>ObjectDict\<close>.
\<close>

fun has_key_path :: "items \<Rightarrow> string list \<Rightarrow> bool" where
  "has_key_path t [] = True"
| "has_key_path t (k # ks) =
     (case map_of t k of None \<Rightarrow> False | Some v \<Rightarrow> has_key_path (mapping_items v) ks)"

fun merged_recursively :: "items \<Rightarrow> items \<Rightarrow> string list \<Rightarrow> bool" where
  "merged_recursively t m [] = True"
| "merged_recursively t m [k] = True"
| "merged_recursively t m (k # ks) =
     (case map_of m k of
        None \<Rightarrow> True
      | Some v \<Rightarrow>
          (case map_of t k of
             Some (ObjDict a) \<Rightarrow> is_mapping v \<and> merged_recursively a (mapping_items v) ks
           | _ \<Rightarrow> False))"

text \<open>A small configuration tree, built by the constructor, for the examples.\<close>

definition sample_config :: items where
  "sample_config =
     ObjectDict
       [(''bump'', Dict [(''part'', Scalar (SStr ''patch'')), (''suffix'', Scalar SNone)]),
        (''push'', Scalar (SBool False))]"

section \<open>The execute helper\<close>

text \<open>
  \<^verbatim>\<open>execute\<close> formats its commands, splits them and runs them as processes.  What
  belongs to the Python runtime and the operating system is a parameter of the model:
  \<^verbatim>\<open>str.isspace\<close> (the characters \<^verbatim>\<open>str.strip\<close> removes), \<^verbatim>\<open>str.format\<close> with the
  replacements as keyword arguments, \<^verbatim>\<open>shlex.split\<close>, and the run of one process, which
  changes the world.  A process either cannot be started (\<^verbatim>\<open>subprocess\<close> raises
  \<^verbatim>\<open>OSError\<close>) or exits with a status; what \<^verbatim>\<open>check_output\<close> captures of its standard
  output is a \<^verbatim>\<open>str\<close> under Python 2 and \<^verbatim>\<open>bytes\<close> under Python 3.
\<close>

datatype captured = Text string | Bytes string

datatype outcome = Exited nat captured | NotStarted string

record 'w runtime =
  isspace :: "char \<Rightarrow> bool"
  format :: "string \<Rightarrow> (string \<times> string) list \<Rightarrow> py_error + string"
  shlex_split :: "string \<Rightarrow> py_error + string list"
  run_process :: "'w \<Rightarrow> string list \<Rightarrow> outcome \<times> 'w"

text \<open>
  A command is \<^verbatim>\<open>None\<close>, a string, or a list (or tuple) whose elements are strings or
  lists of strings.
\<close>

datatype element = Part string | Vector "string list"

datatype command = NoCommand | Template string | Sequence "element list"

text \<open>
  What a call does besides returning: the processes it runs, the two log calls
  (\<^verbatim>\<open>logger.dryrun\<close>, \<^verbatim>\<open>logger.error\<close>) and the \<^verbatim>\<open>print\<close>, in order.
\<close>

datatype event =
    Ran "string list"
  | LogDryrun string
  | LogError "string list" nat
  | Printed captured

text \<open>\<^verbatim>\<open>str.split(sep)\<close> for a separator of one character, \<^verbatim>\<open>str.strip()\<close> and \<^verbatim>\<open>sep.join\<close>.\<close>

fun split_on :: "char \<Rightarrow> string \<Rightarrow> string list" where
  "split_on c [] = [[]]"
| "split_on c (x # xs) =
     (if x = c then [] # split_on c xs
      else (case split_on c xs of [] \<Rightarrow> [[x]] | l # ls \<Rightarrow> (x # l) # ls))"

definition strip :: "(char \<Rightarrow> bool) \<Rightarrow> string \<Rightarrow> string" where
  "strip sp s = rev (dropWhile sp (rev (dropWhile sp s)))"

fun join :: "string \<Rightarrow> string list \<Rightarrow> string" where
  "join sep [] = []"
| "join sep [x] = x"
| "join sep (x # xs) = x @ sep @ join sep xs"

text \<open>A list comprehension whose body may raise: the first exception ends it.\<close>

fun traverse :: "('a \<Rightarrow> 'e + 'b) \<Rightarrow> 'a list \<Rightarrow> 'e + 'b list" where
  "traverse f [] = Inr []"
| "traverse f (x # xs) =
     (case f x of
        Inl e \<Rightarrow> Inl e
      | Inr y \<Rightarrow> (case traverse f xs of Inl e \<Rightarrow> Inl e | Inr ys \<Rightarrow> Inr (y # ys)))"

text \<open>\<^verbatim>\<open>if not command: return\<close>: \<^verbatim>\<open>None\<close>, the empty string and the empty list are false.\<close>

definition falsy :: "command \<Rightarrow> bool" where
  "falsy command = (command = NoCommand \<or> command = Template [] \<or> command = Sequence [])"

text \<open>
  \<^verbatim>\<open>for part in cmd\<close> walks the strings of a list and the characters of a string;
  \<^verbatim>\<open>part.format\<close> exists for a string and raises \<^verbatim>\<open>AttributeError\<close> for a list.  A list
  whose first element is not a list is wrapped, \<^verbatim>\<open>command = [command]\<close>.
\<close>

fun parts_of :: "element \<Rightarrow> element list" where
  "parts_of (Vector cmd) = map Part cmd"
| "parts_of (Part cmd) = map (\<lambda>c. Part [c]) cmd"

fun format_part :: "'w runtime \<Rightarrow> (string \<times> string) list \<Rightarrow> element \<Rightarrow> py_error + string" where
  "format_part rt replacements (Part part) = format rt part replacements"
| "format_part rt replacements (Vector part) = Inl (AttributeError ''format'')"

definition commands_of ::
  "'w runtime \<Rightarrow> command \<Rightarrow> (string \<times> string) list \<Rightarrow> py_error + string list list" where
  "commands_of rt command replacements =
     (case command of
        Sequence elements \<Rightarrow>
          traverse (traverse (format_part rt replacements))
            (case elements of Vector v # rest \<Rightarrow> map parts_of elements | _ \<Rightarrow> [elements])
      | Template text \<Rightarrow>
          traverse
            (\<lambda>cmd. case format rt cmd replacements of Inl e \<Rightarrow> Inl e | Inr s \<Rightarrow> shlex_split rt s)
            (filter (\<lambda>cmd. strip (isspace rt) cmd \<noteq> []) (split_on CHR ''\<newline>'' text))
      | NoCommand \<Rightarrow> Inr [])"

text \<open>
  \<^verbatim>\<open>output += check_output(cmd)\<close>: \<^verbatim>\<open>output\<close> starts as the string \<^verbatim>\<open>''\<close>; adding a
  \<^verbatim>\<open>str\<close> appends it, adding \<^verbatim>\<open>bytes\<close> raises \<^verbatim>\<open>TypeError\<close>.
\<close>

definition append_output :: "string \<Rightarrow> captured \<Rightarrow> py_error + string" where
  "append_output output out =
     (case out of
        Text s \<Rightarrow> Inr (output @ s)
      | Bytes b \<Rightarrow> Inl (TypeError ''str and bytes''))"

text \<open>
  The loop over \<^verbatim>\<open>commands\<close>.  \<^verbatim>\<open>subprocess.check_call\<close> and \<^verbatim>\<open>check_output\<close> raise
  \<^verbatim>\<open>OSError\<close> when the process cannot be started and \<^verbatim>\<open>CalledProcessError\<close> on a
  non-zero exit status.  The branch for the default mode catches \<^verbatim>\<open>CalledProcessError\<close>
  only: it logs, prints the output of the process and goes on.  Every other exception
  leaves the loop.
\<close>

fun run_commands ::
  "'w runtime \<Rightarrow> bool \<Rightarrow> bool \<Rightarrow> string list list \<Rightarrow> string \<Rightarrow> 'w \<times> event list \<Rightarrow>
   (py_error + string) \<times> 'w \<times> event list" where
  "run_commands rt verbose dryrun [] output st = (Inr output, st)"
| "run_commands rt verbose dryrun (cmd # cmds) output (w, log) =
     (if dryrun
      then run_commands rt verbose dryrun cmds output
             (w, log @ [LogDryrun (''execute: '' @ join '' '' cmd)])
      else
        (case run_process rt w cmd of
           (NotStarted msg, w') \<Rightarrow> (Inl (OSError msg), (w', log))
         | (Exited returncode out, w') \<Rightarrow>
             if verbose
             then (if returncode \<noteq> 0
                   then (Inl (CalledProcessError returncode cmd), (w', log @ [Ran cmd]))
                   else run_commands rt verbose dryrun cmds output (w', log @ [Ran cmd]))
             else (if returncode \<noteq> 0
                   then run_commands rt verbose dryrun cmds output
                          (w', log @ [Ran cmd, LogError cmd returncode, Printed out])
                   else (case append_output output out of
                           Inl e \<Rightarrow> (Inl e, (w', log @ [Ran cmd]))
                         | Inr output' \<Rightarrow>
                             run_commands rt verbose dryrun cmds output'
                               (w', log @ [Ran cmd])))))"

definition execute ::
  "'w runtime \<Rightarrow> command \<Rightarrow> bool \<Rightarrow> (string \<times> string) list \<Rightarrow> bool \<Rightarrow> 'w \<times> event list \<Rightarrow>
   (py_error + string option) \<times> 'w \<times> event list" where
  "execute rt command verbose replacements dryrun st =
     (if falsy command then (Inr None, st)
      else
        (case commands_of rt command replacements of
           Inl e \<Rightarrow> (Inl e, st)
         | Inr commands \<Rightarrow>
             (case run_commands rt verbose dryrun commands [] st of
                (Inl e, st') \<Rightarrow> (Inl e, st')
              | (Inr output, st') \<Rightarrow> (Inr (Some output), st'))))"










text \<open>
  Two small runtimes for the examples.  In both the space is the only white space,
  \<^verbatim>\<open>{x}\<close> is the only placeholder, tokens are separated by spaces, and the command
  \<^verbatim>\<open>false\<close> exits with status 1.  The first captures text and has no state; in the
  second the world counts the processes run and the command \<^verbatim>\<open>nosuch\<close> cannot be
  started.
\<close>

definition sample_runtime :: "unit runtime" where
  "sample_runtime =
     \<lparr> isspace = (\<lambda>c. c = CHR '' ''),
       format =
         (\<lambda>s r. if s = ''{x}''
                then (case map_of r ''x'' of None \<Rightarrow> Inl (KeyError ''x'') | Some v \<Rightarrow> Inr v)
                else Inr s),
       shlex_split = (\<lambda>s. Inr (filter (\<lambda>w. w \<noteq> []) (split_on CHR '' '' s))),
       run_process =
         (\<lambda>w cmd. if cmd = [''false''] then (Exited 1 (Text ''boom''), w)
                  else (Exited 0 (Text (join '' '' cmd)), w)) \<rparr>"

definition counting_runtime :: "nat runtime" where
  "counting_runtime =
     \<lparr> isspace = (\<lambda>c. c = CHR '' ''),
       format =
         (\<lambda>s r. if s = ''{x}''
                then (case map_of r ''x'' of None \<Rightarrow> Inl (KeyError ''x'') | Some v \<Rightarrow> Inr v)
                else Inr s),
       shlex_split = (\<lambda>s. Inr (filter (\<lambda>w. w \<noteq> []) (split_on CHR '' '' s))),
       run_process =
         (\<lambda>w cmd. if cmd = [''nosuch''] then (NotStarted ''No such file or directory'', w)
                  else if cmd = [''false''] then (Exited 1 (Text ''boom''), Suc w)
                  else (Exited 0 (Text (join '' '' cmd)), Suc w)) \<rparr>"

section \<open>Command-line flags over the file layer\<close>

text \<open>
  Modelled from the spec: \<^verbatim>\<open>bumpr/config.py\<close> (the class \<^verbatim>\<open>Config\<close> with its
  \<^verbatim>\<open>override_from_args\<close>) is not among the sources, only its tests are.  The flag pairs are
  those of section 6 of the spec.
\<close>

definition flag_pairs :: "string list" where
  "flag_pairs = [''commit'', ''push'', ''skip_tests'', ''bump_only'', ''prepare_only'']"

text \<open>
  Modelled from the spec: \<open>OverrideFromArgs\<close> of section 4.2, missing with
  \<^verbatim>\<open>bumpr/config.py\<close>.  The parsed arguments hold, for a flag pair, \<open>True\<close> when the
  positive form was supplied, \<open>False\<close> when the negative form was, and nothing when
  neither was (the optional boolean of the design notes).  A pair that was not
  supplied leaves the tree untouched; a supplied one sets the boolean.
\<close>

fun override_flags :: "items \<Rightarrow> (string \<times> bool) list \<Rightarrow> string list \<Rightarrow> items" where
  "override_flags tree parsedArgs [] = tree"
| "override_flags tree parsedArgs (flag # flags) =
     override_flags
       (case map_of parsedArgs flag of
          None \<Rightarrow> tree
        | Some b \<Rightarrow> setitem tree flag (Scalar (SBool b)))
       parsedArgs flags"

definition OverrideFromArgs :: "items \<Rightarrow> (string \<times> bool) list \<Rightarrow> items" where
  "OverrideFromArgs tree parsedArgs = override_flags tree parsedArgs flag_pairs"

text \<open>
  Modelled from the spec: the resolution order of section 4.2, missing with
  \<^verbatim>\<open>bumpr/config.py\<close>: the file layer is merged onto the defaults (by \<^verbatim>\<open>ObjectDict.merge\<close>,
  which is in the sources), then the command-line layer is applied.
\<close>

definition resolve :: "items \<Rightarrow> items \<Rightarrow> (string \<times> bool) list \<Rightarrow> items" where
  "resolve defaults file_layer parsedArgs = OverrideFromArgs (merge defaults file_layer) parsedArgs"

section \<open>Version strings\<close>

text \<open>
  Modelled from the spec: \<^verbatim>\<open>bumpr/version.py\<close> (the class \<^verbatim>\<open>Version\<close>) is not among the
  sources.  A version is the record of section 3 of the spec; a version with no suffix
  is final.
\<close>

datatype parse_error = ParseError

record version =
  major :: nat
  minor :: nat
  patch :: nat
  suffix :: "string option"
  suffix_number :: "nat option"

text \<open>Decimal numerals: reading a string of digits and writing a number.\<close>

definition is_digit :: "char \<Rightarrow> bool" where
  "is_digit c = (48 \<le> (of_char c :: nat) \<and> (of_char c :: nat) \<le> 57)"

definition digit_char :: "nat \<Rightarrow> char" where
  "digit_char d = char_of (48 + d)"

definition nat_of_digits :: "string \<Rightarrow> nat" where
  "nat_of_digits ds = foldl (\<lambda>n c. 10 * n + ((of_char c :: nat) - 48)) 0 ds"

fun digits_of_nat :: "nat \<Rightarrow> string" where
  "digits_of_nat n =
     (if n < 10 then [digit_char n] else digits_of_nat (n div 10) @ [digit_char (n mod 10)])"

definition numeric :: "string \<Rightarrow> bool" where
  "numeric ds = (ds \<noteq> [] \<and> list_all is_digit ds)"

text \<open>
  Modelled from the spec: the numerals of a version string, missing with
  \<^verbatim>\<open>bumpr/version.py\<close>.  The components are non-negative integers and \<open>Render\<close> is the
  inverse of \<open>Parse\<close> (sections 3, 4.1 and 8), so a numeral is the decimal a number is
  rendered as: digits only, not empty, no leading zero.
\<close>

definition canonical :: "string \<Rightarrow> bool" where
  "canonical ds = (numeric ds \<and> (ds = ''0'' \<or> hd ds \<noteq> CHR ''0''))"

text \<open>
  Modelled from the spec: \<open>Parse\<close> of section 4.1, missing with \<^verbatim>\<open>bumpr/version.py\<close>.  The
  text has the form \<^verbatim>\<open>MAJOR.MINOR.PATCH[-SUFFIXNUMBER]\<close>: three numerals separated by
  dots, then optionally a dash and a suffix segment, a label that is not empty followed
  by an optional trailing numeral.  A segment of the triplet that is missing or
  malformed is a \<open>ParseError\<close>, and so is a text not of this form.  \<open>segments\<close> cuts the
  text, \<open>Parse\<close> reads the numbers.
\<close>

definition parse_suffix :: "string \<Rightarrow> parse_error + string \<times> string" where
  "parse_suffix seg =
     (let digits = rev (takeWhile is_digit (rev seg));
          label = rev (dropWhile is_digit (rev seg))
      in if label = [] \<or> (digits \<noteq> [] \<and> \<not> canonical digits) then Inl ParseError
         else Inr (label, digits))"

definition segments ::
  "string \<Rightarrow> parse_error + string \<times> string \<times> string \<times> (string \<times> string) option" where
  "segments text =
     (let triplet = takeWhile (\<lambda>c. c \<noteq> CHR ''-'') text;
          rest = dropWhile (\<lambda>c. c \<noteq> CHR ''-'') text
      in case split_on CHR ''.'' triplet of
           [a, b, c] \<Rightarrow>
             if canonical a \<and> canonical b \<and> canonical c
             then (if rest = [] then Inr (a, b, c, None)
                   else (case parse_suffix (tl rest) of
                           Inl e \<Rightarrow> Inl e
                         | Inr s \<Rightarrow> Inr (a, b, c, Some s)))
             else Inl ParseError
         | _ \<Rightarrow> Inl ParseError)"

definition Parse :: "string \<Rightarrow> parse_error + version" where
  "Parse text =
     (case segments text of
        Inl e \<Rightarrow> Inl e
      | Inr (a, b, c, s) \<Rightarrow>
          Inr \<lparr> major = nat_of_digits a, minor = nat_of_digits b, patch = nat_of_digits c,
                suffix = map_option fst s,
                suffix_number =
                  (case s of
                     None \<Rightarrow> None
                   | Some (label, digits) \<Rightarrow>
                       if digits = [] then None else Some (nat_of_digits digits)) \<rparr>)"

text \<open>
  Modelled from the spec: \<open>Render\<close> of section 4.1, missing with \<^verbatim>\<open>bumpr/version.py\<close>: the
  triplet, then the suffix segment unless the suffix is unset, with the trailing number
  unless \<open>suffix_number\<close> is unset.
\<close>

definition Render :: "version \<Rightarrow> string" where
  "Render v =
     digits_of_nat (major v) @ ''.'' @ digits_of_nat (minor v) @ ''.'' @ digits_of_nat (patch v) @
     (case suffix v of
        None \<Rightarrow> []
      | Some label \<Rightarrow>
          ''-'' @ label @ (case suffix_number v of None \<Rightarrow> [] | Some n \<Rightarrow> digits_of_nat n))"

section \<open>Properties of ObjectDict\<close>

subsection \<open>The guard and the stores\<close>

lemma setitem_conv: "setitem self key v = dict_setitem self key (as_ObjectDict v)"
  by (cases v) (simp_all add: as_ObjectDict_def)

lemma update_Cons:
  "update self ((key, v) # rest) = update (setitem self key (as_ObjectDict v)) rest"
  by (cases v) (simp_all add: as_ObjectDict_def)

lemma as_ObjectDict_idem: "as_ObjectDict (as_ObjectDict v) = as_ObjectDict v"
  by (cases v) (simp_all add: as_ObjectDict_def)

lemma is_mapping_as_ObjectDict: "is_mapping (as_ObjectDict v) = is_mapping v"
  by (cases v) (simp_all add: as_ObjectDict_def)

lemma as_ObjectDict_scalar: "\<not> is_mapping v \<Longrightarrow> as_ObjectDict v = v"
  by (cases v) (simp_all add: as_ObjectDict_def)

lemma map_of_dict_setitem: "map_of (dict_setitem self key v) = (map_of self)(key \<mapsto> v)"
  by (simp add: dict_setitem_def update_conv')

lemma keys_dict_setitem:
  "fst ` set (dict_setitem self key v) = insert key (fst ` set self)"
  by (simp add: dict_setitem_def dom_update)

lemma dict_setitem_new:
  "key \<notin> set (map fst self) \<Longrightarrow> dict_setitem self key v = self @ [(key, v)]"
  unfolding dict_setitem_def by (induction self) auto

lemma merge_Cons: "merge self ((key, v) # rest) = merge (merge_item self key v) rest"
  by (cases v) (simp_all add: merge_item_def Let_def split: option.splits pyval.splits)

lemma items_size_as_ObjectDict:
  "items_size (mapping_items (as_ObjectDict v)) < items_size ((key, v) # rest)"
  using items_size_update(1) [of "mapping_items v"]
  by (cases v) (simp_all add: as_ObjectDict_def del: ObjectDict.simps)

text \<open>
  Induction along the calls of \<^verbatim>\<open>merge\<close>: the rest of the loop, and the nested call on
  the converted value.
\<close>

lemma merge_induct [case_names Nil Cons]:
  assumes nil: "\<And>self. P self []"
    and cons: "\<And>self key v rest.
        (\<And>a. P a (mapping_items (as_ObjectDict v))) \<Longrightarrow> (\<And>self'. P self' rest) \<Longrightarrow>
        P self ((key, v) # rest)"
  shows "P self args"
proof (induction "items_size args" arbitrary: self args rule: less_induct)
  case less
  show ?case
  proof (cases args)
    case Nil
    then show ?thesis by (simp add: nil)
  next
    case (Cons kv rest)
    obtain key v where kv: "kv = (key, v)" by (cases kv)
    have "P a (mapping_items (as_ObjectDict v))" for a
      using less [of "mapping_items (as_ObjectDict v)" a] items_size_as_ObjectDict [of v key rest]
      by (simp add: Cons kv)
    moreover have "P self' rest" for self'
      using less [of rest self'] by (simp add: Cons kv)
    ultimately show ?thesis
      unfolding Cons kv by (rule cons)
  qed
qed

subsection \<open>The class invariant\<close>

lemma nested_ObjectDict_sound: "nested_ObjectDict v \<Longrightarrow> sound v"
  by (cases v) auto

lemma nested_ObjectDict_items_sound: "nested_ObjectDict_items d \<Longrightarrow> sound_items d"
  by (induction d) (auto simp: nested_ObjectDict_sound)

lemma nested_ObjectDict_items_AList_update:
  "nested_ObjectDict_items self \<Longrightarrow> nested_ObjectDict v \<Longrightarrow>
   nested_ObjectDict_items (AList.update key v self)"
  by (induction self) auto

lemma nested_ObjectDict_items_dict_setitem:
  "nested_ObjectDict_items self \<Longrightarrow> nested_ObjectDict v \<Longrightarrow>
   nested_ObjectDict_items (dict_setitem self key v)"
  unfolding dict_setitem_def by (rule nested_ObjectDict_items_AList_update)

lemma nested_ObjectDict_items_lookup:
  "nested_ObjectDict_items self \<Longrightarrow> map_of self key = Some v \<Longrightarrow> nested_ObjectDict v"
  by (induction self) (auto split: if_splits)

lemma nested_ObjectDict_construct:
  "sound_items d \<Longrightarrow> nested_ObjectDict_items (ObjectDict d)"
  "nested_ObjectDict_items self \<Longrightarrow> sound_items args \<Longrightarrow>
   nested_ObjectDict_items (update self args)"
  "nested_ObjectDict_items self \<Longrightarrow> sound v \<Longrightarrow> nested_ObjectDict_items (setitem self key v)"
  by (induction d and self args and self key v rule: ObjectDict_update_setitem.induct)
     (simp_all add: nested_ObjectDict_items_dict_setitem)

lemma nested_ObjectDict_as_ObjectDict: "sound v \<Longrightarrow> nested_ObjectDict (as_ObjectDict v)"
  by (cases v) (simp_all add: as_ObjectDict_def nested_ObjectDict_construct)

lemma nested_ObjectDict_items_merge:
  "nested_ObjectDict_items self \<Longrightarrow> sound_items args \<Longrightarrow>
   nested_ObjectDict_items (merge self args)"
proof (induction self args rule: merge_induct)
  case (Nil self)
  then show ?case by simp
next
  case (Cons self key v rest)
  from Cons.prems have sv: "sound v" and sr: "sound_items rest" by simp_all
  have conv: "nested_ObjectDict (as_ObjectDict v)"
    using sv by (rule nested_ObjectDict_as_ObjectDict)
  have "nested_ObjectDict_items (merge_item self key v)"
  proof (cases "is_mapping v")
    case False
    then show ?thesis
      using Cons.prems(1) sv by (simp add: merge_item_def nested_ObjectDict_construct(3))
  next
    case True
    show ?thesis
    proof (cases "\<exists>a. map_of self key = Some (ObjDict a)")
      case True
      then obtain a where a: "map_of self key = Some (ObjDict a)" by blast
      have "nested_ObjectDict (ObjDict a)"
        using Cons.prems(1) a by (rule nested_ObjectDict_items_lookup)
      then have "nested_ObjectDict_items a" by simp
      moreover have "sound_items (mapping_items (as_ObjectDict v))"
        using conv by (cases "as_ObjectDict v") (simp_all add: nested_ObjectDict_items_sound)
      ultimately have "nested_ObjectDict_items (merge a (mapping_items (as_ObjectDict v)))"
        by (rule Cons.IH(1))
      then show ?thesis
        using \<open>is_mapping v\<close> a Cons.prems(1)
        by (simp add: merge_item_def nested_ObjectDict_items_AList_update)
    next
      case False
      then have "merge_item self key v = setitem self key (as_ObjectDict v)"
        using \<open>is_mapping v\<close>
        by (auto simp: merge_item_def split: option.splits pyval.splits)
      then show ?thesis
        using Cons.prems(1) conv
        by (simp add: nested_ObjectDict_construct(3) nested_ObjectDict_sound del: setitem.simps)
    qed
  qed
  then show ?case
    using sr by (simp add: merge_Cons Cons.IH(2) del: merge.simps)
qed

subsection \<open>Dictionaries as association lists\<close>

lemma valid_items_distinct: "valid_items d \<Longrightarrow> distinct (map fst d)"
  by (induction d) (force simp: map_of_eq_None_iff)+

lemma valid_items_lookup: "valid_items d \<Longrightarrow> map_of d k = Some v \<Longrightarrow> valid v"
  by (induction d) (auto split: if_splits)

lemma valid_mapping_items: "valid v \<Longrightarrow> valid_items (mapping_items v)"
  by (cases v) simp_all

lemma update_distinct:
  "distinct (map fst d) \<Longrightarrow> set (map fst self) \<inter> set (map fst d) = {} \<Longrightarrow>
   update self d = self @ map (\<lambda>(k, v). (k, as_ObjectDict v)) d"
proof (induction d arbitrary: self)
  case Nil
  then show ?case by simp
next
  case (Cons kv d)
  obtain key v where kv: "kv = (key, v)" by (cases kv)
  have new: "key \<notin> set (map fst self)"
    using Cons.prems(2) by (auto simp: kv)
  have step: "setitem self key (as_ObjectDict v) = self @ [(key, as_ObjectDict v)]"
    using new by (simp add: setitem_conv as_ObjectDict_idem dict_setitem_new del: setitem.simps)
  have "update (self @ [(key, as_ObjectDict v)]) d
        = (self @ [(key, as_ObjectDict v)]) @ map (\<lambda>(k, v). (k, as_ObjectDict v)) d"
    using Cons.prems by (intro Cons.IH) (auto simp: kv)
  then show ?case
    unfolding kv update_Cons step by simp
qed

lemma ObjectDict_distinct:
  "distinct (map fst d) \<Longrightarrow> ObjectDict d = map (\<lambda>(k, v). (k, as_ObjectDict v)) d"
  using update_distinct [of d "[]"] by simp

subsection \<open>What merge leaves at a key\<close>

lemma merge_item_as_ObjectDict: "merge_item self key (as_ObjectDict v) = merge_item self key v"
  by (cases "is_mapping v")
     (simp_all add: merge_item_def is_mapping_as_ObjectDict as_ObjectDict_idem as_ObjectDict_scalar
        del: setitem.simps split: option.splits pyval.splits)

lemma merge_map_as_ObjectDict:
  "merge self (map (\<lambda>(k, v). (k, as_ObjectDict v)) d) = merge self d"
proof (induction d arbitrary: self)
  case Nil
  then show ?case by simp
next
  case (Cons kv d)
  obtain key v where kv: "kv = (key, v)" by (cases kv)
  show ?case
    unfolding kv by (simp add: merge_Cons merge_item_as_ObjectDict Cons.IH del: merge.simps)
qed

text \<open>Merging the converted value is merging the value.\<close>

lemma merge_as_ObjectDict:
  assumes "distinct (map fst (mapping_items v))"
  shows "merge a (mapping_items (as_ObjectDict v)) = merge a (mapping_items v)"
proof (cases v)
  case (Dict d)
  have "mapping_items (as_ObjectDict v) = ObjectDict d"
    by (simp add: Dict as_ObjectDict_def del: ObjectDict.simps)
  also have "\<dots> = map (\<lambda>(k, v). (k, as_ObjectDict v)) d"
    using assms by (simp add: Dict ObjectDict_distinct del: ObjectDict.simps)
  finally show ?thesis
    by (simp add: Dict merge_map_as_ObjectDict)
qed (simp_all add: as_ObjectDict_def)

lemma map_of_merge_item:
  "map_of (merge_item self key v) = (map_of self)(key \<mapsto> merge_value (map_of self key) v)"
  by (auto simp: merge_item_def merge_value_def setitem_conv map_of_dict_setitem update_conv'
        as_ObjectDict_idem as_ObjectDict_scalar
      simp del: setitem.simps split: option.splits pyval.splits)

lemma keys_merge_item:
  "fst ` set (merge_item self key v) = insert key (fst ` set self)"
  by (simp add: merge_item_def setitem_conv keys_dict_setitem dom_update
      del: setitem.simps split: option.splits pyval.splits)

lemma map_of_merge:
  "distinct (map fst m) \<Longrightarrow>
   map_of (merge t m) k =
     (case map_of m k of None \<Rightarrow> map_of t k | Some v \<Rightarrow> Some (merge_value (map_of t k) v))"
proof (induction m arbitrary: t)
  case Nil
  then show ?case by simp
next
  case (Cons kv m)
  obtain key v where kv: "kv = (key, v)" by (cases kv)
  from Cons.prems have dist: "distinct (map fst m)" and new: "map_of m key = None"
    by (auto simp: kv map_of_eq_None_iff)
  show ?case
    unfolding kv merge_Cons
    using new by (simp add: Cons.IH [OF dist] map_of_merge_item split: option.splits)
qed

lemma keys_merge: "fst ` set (merge t m) = fst ` set t \<union> fst ` set m"
proof (induction m arbitrary: t)
  case Nil
  then show ?case by simp
next
  case (Cons kv m)
  obtain key v where kv: "kv = (key, v)" by (cases kv)
  show ?case
    unfolding kv merge_Cons by (simp add: Cons.IH keys_merge_item)
qed

section \<open>The claims about ObjectDict\<close>

text \<open>
  Claim C1.  For a configuration tree \<open>t\<close> (an \<^verbatim>\<open>ObjectDict\<close> with the class invariant) and
  a mapping \<open>m\<close>, \<^verbatim>\<open>t.merge(m)\<close> is the deep merge of the spec.  The keys of the result are
  those of \<open>t\<close> and those of \<open>m\<close>.  A key that \<open>m\<close> lacks keeps the value it has in \<open>t\<close>.
  At a key of \<open>m\<close>: when the value in \<open>t\<close> and the incoming value are both mappings, the
  result holds the merge of the two, by the same operation; otherwise the incoming value
  takes the place (a plain dictionary as the \<^verbatim>\<open>ObjectDict\<close> made of it, anything else as it
  is).
\<close>

theorem merge_deep_merge_rule:
  assumes "nested_ObjectDict_items t" and "valid_items m"
  shows "fst ` set (merge t m) = fst ` set t \<union> fst ` set m \<and>
    map_of (merge t m) k =
      (case map_of m k of
         None \<Rightarrow> map_of t k
       | Some v \<Rightarrow>
           (case map_of t k of
              None \<Rightarrow> Some (as_ObjectDict v)
            | Some tv \<Rightarrow>
                if is_mapping tv \<and> is_mapping v
                then Some (ObjDict (merge (mapping_items tv) (mapping_items v)))
                else Some (as_ObjectDict v)))"
proof (rule conjI)
  show "fst ` set (merge t m) = fst ` set t \<union> fst ` set m"
    by (rule keys_merge)
next
  have lookup: "map_of (merge t m) k =
     (case map_of m k of None \<Rightarrow> map_of t k | Some v \<Rightarrow> Some (merge_value (map_of t k) v))"
    using assms(2) by (intro map_of_merge valid_items_distinct)
  show "map_of (merge t m) k =
      (case map_of m k of
         None \<Rightarrow> map_of t k
       | Some v \<Rightarrow>
           (case map_of t k of
              None \<Rightarrow> Some (as_ObjectDict v)
            | Some tv \<Rightarrow>
                if is_mapping tv \<and> is_mapping v
                then Some (ObjDict (merge (mapping_items tv) (mapping_items v)))
                else Some (as_ObjectDict v)))"
  proof (cases "map_of m k")
    case None
    then show ?thesis by (simp add: lookup)
  next
    case (Some v)
    have v: "valid v"
      using assms(2) Some by (rule valid_items_lookup)
    then have same: "merge a (mapping_items (as_ObjectDict v)) = merge a (mapping_items v)" for a
      by (intro merge_as_ObjectDict valid_items_distinct valid_mapping_items)
    show ?thesis
    proof (cases "map_of t k")
      case None
      then show ?thesis
        using Some by (simp add: lookup merge_value_def as_ObjectDict_scalar)
    next
      case tv: (Some tv)
      have "nested_ObjectDict tv"
        using assms(1) tv by (rule nested_ObjectDict_items_lookup)
      then show ?thesis
        using Some tv same
        by (cases tv) (simp_all add: lookup merge_value_def as_ObjectDict_scalar)
    qed
  qed
qed

theorem merge_deep_merge_rule_witness:
  "nested_ObjectDict_items sample_config \<and>
   valid_items [(''bump'', Dict [(''suffix'', Scalar (SStr ''dev''))]),
                (''file'', Scalar (SStr ''a.py''))] \<and>
   map_of (merge sample_config
             [(''bump'', Dict [(''suffix'', Scalar (SStr ''dev''))]),
              (''file'', Scalar (SStr ''a.py''))]) ''bump''
     = Some (ObjDict [(''part'', Scalar (SStr ''patch'')), (''suffix'', Scalar (SStr ''dev''))])"
proof -
  have t: "nested_ObjectDict_items sample_config"
    by (simp add: sample_config_def dict_setitem_def)
  have m: "valid_items [(''bump'', Dict [(''suffix'', Scalar (SStr ''dev''))]),
                        (''file'', Scalar (SStr ''a.py''))]"
    by simp
  show ?thesis
    using t m merge_deep_merge_rule [OF t m, of "''bump''"]
    by (simp add: sample_config_def dict_setitem_def as_ObjectDict_def)
qed

text \<open>
  Claim C2.  \<^verbatim>\<open>t.merge(m)\<close> deletes no key: every key of \<open>t\<close> is a key of the result, and
  every key path of \<open>t\<close> that lies in dictionaries merged recursively (or left untouched)
  is a key path of the result.
\<close>

theorem merge_keeps_keys:
  assumes "valid_items m" and "has_key_path t p" and "merged_recursively t m p"
  shows "fst ` set t \<subseteq> fst ` set (merge t m) \<and> has_key_path (merge t m) p"
proof (rule conjI)
  show "fst ` set t \<subseteq> fst ` set (merge t m)"
    by (simp add: keys_merge)
next
  show "has_key_path (merge t m) p"
    using assms
  proof (induction p arbitrary: t m)
    case Nil
    then show ?case by simp
  next
    case (Cons k ks)
    from Cons.prems(2) obtain tv where tv: "map_of t k = Some tv"
      and sub: "has_key_path (mapping_items tv) ks"
      by (auto split: option.splits)
    have lookup: "map_of (merge t m) k =
       (case map_of m k of None \<Rightarrow> map_of t k | Some v \<Rightarrow> Some (merge_value (map_of t k) v))"
      using Cons.prems(1) by (intro map_of_merge valid_items_distinct)
    show ?case
    proof (cases "map_of m k")
      case None
      then show ?thesis using tv sub by (simp add: lookup)
    next
      case (Some v)
      show ?thesis
      proof (cases ks)
        case Nil
        then show ?thesis using Some by (simp add: lookup)
      next
        case (Cons k' ks')
        from Cons.prems(3) Some tv Cons obtain a where a: "tv = ObjDict a"
          and mv: "is_mapping v" and rec: "merged_recursively a (mapping_items v) ks"
          by (auto split: pyval.splits)
        have v: "valid v"
          using Cons.prems(1) Some by (rule valid_items_lookup)
        then have vi: "valid_items (mapping_items v)"
          by (rule valid_mapping_items)
        have same: "merge a (mapping_items (as_ObjectDict v)) = merge a (mapping_items v)"
          using vi by (intro merge_as_ObjectDict valid_items_distinct)
        have "has_key_path (merge a (mapping_items v)) ks"
          using vi sub rec unfolding a by (intro Cons.IH) simp_all
        then show ?thesis
          using Some tv a mv same by (simp add: lookup merge_value_def)
      qed
    qed
  qed
qed

theorem merge_keeps_keys_witness:
  "valid_items [(''bump'', Dict [(''suffix'', Scalar (SStr ''dev''))])] \<and>
   has_key_path sample_config [''bump'', ''part''] \<and>
   merged_recursively sample_config
     [(''bump'', Dict [(''suffix'', Scalar (SStr ''dev''))])] [''bump'', ''part''] \<and>
   has_key_path
     (merge sample_config [(''bump'', Dict [(''suffix'', Scalar (SStr ''dev''))])])
     [''bump'', ''part'']"
proof -
  have m: "valid_items [(''bump'', Dict [(''suffix'', Scalar (SStr ''dev''))])]"
    by simp
  have p: "has_key_path sample_config [''bump'', ''part'']"
    by (simp add: sample_config_def dict_setitem_def)
  have r: "merged_recursively sample_config
             [(''bump'', Dict [(''suffix'', Scalar (SStr ''dev''))])] [''bump'', ''part'']"
    by (simp add: sample_config_def dict_setitem_def)
  show ?thesis
    using m p r merge_keeps_keys [OF m p r] by simp
qed

text \<open>
  Claim C4, as the claim states it, fails: the key \<^verbatim>\<open>merge\<close> is present in the tree
  \<^verbatim>\<open>ObjectDict({'merge': True})\<close>, item access returns \<^verbatim>\<open>True\<close>, and the attribute
  \<^verbatim>\<open>t.merge\<close> is the method of the class, whatever the runtime inherits.
\<close>

theorem getattr_mirrors_getitem_counterexample:
  "getitem (ObjectDict [(''merge'', Scalar (SBool True))]) ''merge''
     = Inr (Scalar (SBool True)) \<and>
   getattr [] (ObjectDict [(''merge'', Scalar (SBool True))]) ''merge''
     = Inr (ClassAttribute ''merge'') \<and>
   getattr [] (ObjectDict [(''merge'', Scalar (SBool True))]) ''merge''
     \<noteq> Inr (Item (Scalar (SBool True)))"
  by (simp add: getitem_def getattr_def ObjectDict_class_body_def dict_setitem_def)

text \<open>
  Claim C4, amended.  For a key present in the tree that is not the name of an attribute
  of the class (bound in the body of \<^verbatim>\<open>ObjectDict\<close> or inherited), reading the attribute
  returns the value that item access returns; and for every tree, key and value,
  attribute assignment stores what item assignment stores.
\<close>

theorem attribute_access_mirrors_key_access:
  "(name \<notin> set ObjectDict_class_body \<longrightarrow> name \<notin> set inherited \<longrightarrow> map_of t name = Some v \<longrightarrow>
      getitem t name = Inr v \<and> getattr inherited t name = Inr (Item v)) \<and>
   setattr t k w = setitem t k w"
  by (simp add: getitem_def getattr_def setattr_def setitem_conv as_ObjectDict_idem
      del: setitem.simps)

theorem attribute_access_mirrors_key_access_witness:
  "''bump'' \<notin> set ObjectDict_class_body \<and> ''bump'' \<notin> set [''keys'', ''items''] \<and>
   map_of sample_config ''bump''
     = Some (ObjDict [(''part'', Scalar (SStr ''patch'')), (''suffix'', Scalar SNone)]) \<and>
   getitem sample_config ''bump''
     = Inr (ObjDict [(''part'', Scalar (SStr ''patch'')), (''suffix'', Scalar SNone)]) \<and>
   getattr [''keys'', ''items''] sample_config ''bump''
     = Inr (Item (ObjDict [(''part'', Scalar (SStr ''patch'')), (''suffix'', Scalar SNone)])) \<and>
   setattr sample_config ''bump'' (Dict [(''part'', Scalar (SStr ''major''))])
     = setitem sample_config ''bump'' (Dict [(''part'', Scalar (SStr ''major''))]) \<and>
   setattr (ObjectDict []) ''merge'' (Dict [(''x'', Dict [])])
     = setitem (ObjectDict []) ''merge'' (Dict [(''x'', Dict [])]) \<and>
   setattr (ObjectDict [(''merge'', Scalar (SBool True))]) ''merge'' (Scalar (SBool False))
     = setitem (ObjectDict [(''merge'', Scalar (SBool True))]) ''merge'' (Scalar (SBool False))"
proof -
  have a: "''bump'' \<notin> set ObjectDict_class_body"
    by (simp add: ObjectDict_class_body_def)
  have b: "''bump'' \<notin> set [''keys'', ''items'']"
    by simp
  have c: "map_of sample_config ''bump''
             = Some (ObjDict [(''part'', Scalar (SStr ''patch'')), (''suffix'', Scalar SNone)])"
    by (simp add: sample_config_def dict_setitem_def)
  note read = attribute_access_mirrors_key_access
        [of "''bump''" "[''keys'', ''items'']" sample_config
           "ObjDict [(''part'', Scalar (SStr ''patch'')), (''suffix'', Scalar SNone)]"
           "''bump''" "Dict [(''part'', Scalar (SStr ''major''))]"]
  note empty = attribute_access_mirrors_key_access
        [of "''merge''" "[]" "ObjectDict []" "Scalar SNone"
           "''merge''" "Dict [(''x'', Dict [])]"]
  note shadowed = attribute_access_mirrors_key_access
        [of "''merge''" "[]" "ObjectDict [(''merge'', Scalar (SBool True))]" "Scalar SNone"
           "''merge''" "Scalar (SBool False)"]
  have r: "getitem sample_config ''bump''
             = Inr (ObjDict [(''part'', Scalar (SStr ''patch'')), (''suffix'', Scalar SNone)]) \<and>
           getattr [''keys'', ''items''] sample_config ''bump''
             = Inr (Item (ObjDict [(''part'', Scalar (SStr ''patch'')),
                                   (''suffix'', Scalar SNone)]))"
    using read a b c by blast
  have w1: "setattr sample_config ''bump'' (Dict [(''part'', Scalar (SStr ''major''))])
     = setitem sample_config ''bump'' (Dict [(''part'', Scalar (SStr ''major''))])"
    using read by blast
  have w2: "setattr (ObjectDict []) ''merge'' (Dict [(''x'', Dict [])])
     = setitem (ObjectDict []) ''merge'' (Dict [(''x'', Dict [])])"
    using empty by blast
  have w3: "setattr (ObjectDict [(''merge'', Scalar (SBool True))]) ''merge'' (Scalar (SBool False))
     = setitem (ObjectDict [(''merge'', Scalar (SBool True))]) ''merge'' (Scalar (SBool False))"
    using shadowed by blast
  show ?thesis
    using a b c r w1 w2 w3 by blast
qed

text \<open>
  Claim C5.  Merging an empty mapping changes nothing, so merging an empty file layer
  and then an empty command-line layer onto a tree gives the tree back.
\<close>

theorem merge_empty_identity: "merge t [] = t \<and> merge (merge t []) [] = t"
  by simp

text \<open>
  Claim C9.  Construction, \<^verbatim>\<open>update\<close>, item assignment, attribute assignment and \<^verbatim>\<open>merge\<close>
  establish and keep the class invariant: the object they leave holds no plain
  dictionary at any depth, for every argument whose own \<^verbatim>\<open>ObjectDict\<close> objects have the
  invariant.
\<close>

theorem ObjectDict_invariant:
  assumes "sound_items m" and "sound v" and "nested_ObjectDict_items t"
  shows "nested_ObjectDict_items (ObjectDict m) \<and>
         nested_ObjectDict_items (update t m) \<and>
         nested_ObjectDict_items (setitem t k v) \<and>
         nested_ObjectDict_items (setattr t k v) \<and>
         nested_ObjectDict_items (merge t m)"
proof -
  have "nested_ObjectDict_items (setattr t k v)"
    unfolding setattr_def
    using assms(3) nested_ObjectDict_sound [OF nested_ObjectDict_as_ObjectDict [OF assms(2)]]
    by (rule nested_ObjectDict_construct(3))
  then show ?thesis
    using assms
    by (simp add: nested_ObjectDict_construct nested_ObjectDict_items_merge
        del: ObjectDict.simps setitem.simps)
qed

theorem ObjectDict_invariant_witness:
  "sound_items [(''bump'', Dict [(''part'', Dict [])])] \<and>
   sound (Dict [(''x'', Dict [])]) \<and>
   nested_ObjectDict_items sample_config \<and>
   nested_ObjectDict_items (ObjectDict [(''bump'', Dict [(''part'', Dict [])])]) \<and>
   nested_ObjectDict_items (update sample_config [(''bump'', Dict [(''part'', Dict [])])]) \<and>
   nested_ObjectDict_items (setitem sample_config ''k'' (Dict [(''x'', Dict [])])) \<and>
   nested_ObjectDict_items (setattr sample_config ''k'' (Dict [(''x'', Dict [])])) \<and>
   nested_ObjectDict_items (merge sample_config [(''bump'', Dict [(''part'', Dict [])])])"
proof -
  have m: "sound_items [(''bump'', Dict [(''part'', Dict [])])]" by simp
  have v: "sound (Dict [(''x'', Dict [])])" by simp
  have t: "nested_ObjectDict_items sample_config"
    by (simp add: sample_config_def dict_setitem_def)
  show ?thesis
    using m v t ObjectDict_invariant [OF m v t, of "''k''"] by simp
qed

text \<open>
  Claim C10, as the claim states it, fails: \<^verbatim>\<open>merge\<close> is no method of \<^verbatim>\<open>dict\<close> and no key
  of the sample tree, and reading \<^verbatim>\<open>t.merge\<close> raises nothing: the normal lookup finds the
  method that the body of \<^verbatim>\<open>ObjectDict\<close> defines, and \<^verbatim>\<open>__getattr__\<close> is not called.  The
  names inherited here are the methods of \<^verbatim>\<open>dict\<close>.
\<close>

theorem getattr_missing_key_counterexample:
  "''merge'' \<notin> set [''clear'', ''copy'', ''fromkeys'', ''get'', ''items'', ''keys'', ''pop'',
                      ''popitem'', ''setdefault'', ''update'', ''values''] \<and>
   map_of sample_config ''merge'' = None \<and>
   getattr [''clear'', ''copy'', ''fromkeys'', ''get'', ''items'', ''keys'', ''pop'',
            ''popitem'', ''setdefault'', ''update'', ''values''] sample_config ''merge''
     = Inr (ClassAttribute ''merge'') \<and>
   getattr [''clear'', ''copy'', ''fromkeys'', ''get'', ''items'', ''keys'', ''pop'',
            ''popitem'', ''setdefault'', ''update'', ''values''] sample_config ''merge''
     \<noteq> Inl (KeyError ''merge'')"
  by (simp add: getattr_def ObjectDict_class_body_def sample_config_def dict_setitem_def)

text \<open>
  Claim C10, amended.  Reading an attribute whose name is neither a key of the tree nor
  an attribute of the class (bound in the body of \<^verbatim>\<open>ObjectDict\<close>, as \<^verbatim>\<open>merge\<close> and \<^verbatim>\<open>update\<close>
  are, or inherited from \<^verbatim>\<open>dict\<close> and \<^verbatim>\<open>object\<close>) raises \<^verbatim>\<open>KeyError\<close>: \<^verbatim>\<open>__getattr__\<close>
  forwards to item access, and neither a default value nor \<^verbatim>\<open>AttributeError\<close> comes back.
\<close>

theorem getattr_missing_key_raises_KeyError:
  assumes "name \<notin> set ObjectDict_class_body" and "name \<notin> set inherited"
    and "map_of t name = None"
  shows "getattr inherited t name = Inl (KeyError name)"
  using assms by (simp add: getattr_def getitem_def)

theorem getattr_missing_key_raises_KeyError_witness:
  "''nope'' \<notin> set ObjectDict_class_body \<and> ''nope'' \<notin> set [''keys'', ''items''] \<and>
   map_of sample_config ''nope'' = None \<and>
   getattr [''keys'', ''items''] sample_config ''nope'' = Inl (KeyError ''nope'')"
proof -
  have a: "''nope'' \<notin> set ObjectDict_class_body"
    by (simp add: ObjectDict_class_body_def)
  have b: "''nope'' \<notin> set [''keys'', ''items'']"
    by simp
  have c: "map_of sample_config ''nope'' = None"
    by (simp add: sample_config_def dict_setitem_def)
  show ?thesis
    using a b c getattr_missing_key_raises_KeyError [OF a b c] by simp
qed

section \<open>Properties of execute\<close>









text \<open>In the default mode no \<^verbatim>\<open>CalledProcessError\<close> reaches the caller.\<close>

lemma run_commands_quiet_never_raises:
  "fst (run_commands rt False dryrun cmds acc st) \<noteq> Inl (CalledProcessError returncode cmd)"
proof (induction cmds arbitrary: acc st dryrun)
  case Nil
  then show ?case by simp
next
  case (Cons c cmds)
  obtain w log where st: "st = (w, log)" by (cases st)
  obtain r w1 where run: "run_process rt w c = (r, w1)"
    by (cases "run_process rt w c")
  show ?case
    unfolding st using run
    by (cases r) (auto simp: Cons.IH append_output_def split: captured.splits)
qed


text \<open>
  The two exceptions that the default mode does not catch: a process that cannot be
  started ends the run at that line, and so do bytes captured from a process that
  succeeded (Python 3), after the process has run.
\<close>

lemma execute_stops_at_unstartable:
  "execute counting_runtime (Template ''ls\<newline>nosuch\<newline>echo hi'') False [] False (0, [])
   = (Inl (OSError ''No such file or directory''), 1, [Ran [''ls'']])"
  by (simp add: execute_def falsy_def commands_of_def counting_runtime_def strip_def
      append_output_def)

lemma execute_stops_at_bytes:
  "execute (counting_runtime \<lparr> run_process := (\<lambda>w cmd. (Exited 0 (Bytes ''hi''), Suc w)) \<rparr>)
     (Template ''echo hi\<newline>echo ho'') False [] False (0, [])
   = (Inl (TypeError ''str and bytes''), 1, [Ran [''echo'', ''hi'']])"
  by (simp add: execute_def falsy_def commands_of_def counting_runtime_def strip_def
      append_output_def)



text \<open>
  Claim C3 does not hold of the code.  In the default mode (neither verbose nor dry run)
  the command \<^verbatim>\<open>false\<close> fails with status 1; \<^verbatim>\<open>execute\<close> logs the error, prints the
  output of the process, runs the next command and returns its output: nothing is
  raised and the run is not aborted.
\<close>

theorem execute_swallows_failure:
  "execute sample_runtime (Template ''false\<newline>echo hi'') False [] False ((), [])
   = (Inr (Some ''echo hi''), (),
      [Ran [''false''], LogError [''false''] 1, Printed (Text ''boom''), Ran [''echo'', ''hi'']])"
  by (simp add: execute_def falsy_def commands_of_def sample_runtime_def strip_def
      append_output_def)

section \<open>Properties of the command-line override\<close>

lemma map_of_override_flags:
  "map_of (override_flags tree parsedArgs flags) k =
     (if k \<in> set flags
      then (case map_of parsedArgs k of None \<Rightarrow> map_of tree k | Some b \<Rightarrow> Some (Scalar (SBool b)))
      else map_of tree k)"
proof (induction flags arbitrary: tree)
  case Nil
  then show ?case by simp
next
  case (Cons flag flags)
  show ?case
    by (cases "map_of parsedArgs flag")
       (auto simp: Cons.IH map_of_dict_setitem split: option.splits)
qed

text \<open>
  Claim C6.  For every flag pair: when neither form is on the command line, the resolved
  value is the one of the defaults and the file layer; when one form is, the resolved
  value is the boolean that form sets, whatever the file layer holds.
\<close>

theorem flag_pair_override:
  assumes "flag \<in> set flag_pairs"
  shows "map_of (resolve defaults file_layer parsedArgs) flag =
     (case map_of parsedArgs flag of
        None \<Rightarrow> map_of (merge defaults file_layer) flag
      | Some b \<Rightarrow> Some (Scalar (SBool b)))"
  using assms by (simp add: resolve_def OverrideFromArgs_def map_of_override_flags)

theorem flag_pair_override_witness:
  "''push'' \<in> set flag_pairs \<and>
   map_of (resolve [(''push'', Scalar (SBool False))] [(''push'', Scalar (SBool True))] []) ''push''
     = Some (Scalar (SBool True)) \<and>
   map_of (resolve [(''push'', Scalar (SBool False))] [(''push'', Scalar (SBool False))]
             [(''push'', True)]) ''push''
     = Some (Scalar (SBool True)) \<and>
   map_of (resolve [(''push'', Scalar (SBool False))] [(''push'', Scalar (SBool True))]
             [(''push'', False)]) ''push''
     = Some (Scalar (SBool False))"
proof -
  have f: "''push'' \<in> set flag_pairs"
    by (simp add: flag_pairs_def)
  show ?thesis
    using f
      flag_pair_override
        [OF f, of "[(''push'', Scalar (SBool False))]" "[(''push'', Scalar (SBool True))]" "[]"]
      flag_pair_override
        [OF f, of "[(''push'', Scalar (SBool False))]" "[(''push'', Scalar (SBool False))]"
           "[(''push'', True)]"]
      flag_pair_override
        [OF f, of "[(''push'', Scalar (SBool False))]" "[(''push'', Scalar (SBool True))]"
           "[(''push'', False)]"]
    by (simp add: dict_setitem_def)
qed

section \<open>Properties of Parse and Render\<close>

declare digits_of_nat.simps [simp del]

lemma digit_char_of_char: "is_digit c \<Longrightarrow> digit_char (of_char c - 48) = c"
  by (simp add: is_digit_def digit_char_def)

lemma digit_value_less: "is_digit c \<Longrightarrow> (of_char c :: nat) - 48 < 10"
  unfolding is_digit_def by arith

lemma char_of_48: "char_of (48 :: nat) = CHR ''0''"
  by code_simp

lemma digit_value_pos: "is_digit c \<Longrightarrow> c \<noteq> CHR ''0'' \<Longrightarrow> 0 < (of_char c :: nat) - 48"
proof -
  assume d: "is_digit c" and nz: "c \<noteq> CHR ''0''"
  have "(of_char c :: nat) \<noteq> 48"
  proof
    assume "(of_char c :: nat) = 48"
    then have "char_of (of_char c :: nat) = (char_of (48 :: nat) :: char)" by simp
    then have "c = CHR ''0''" by (simp add: char_of_48)
    with nz show False by simp
  qed
  with d show ?thesis by (simp add: is_digit_def)
qed

lemma nat_of_digits_snoc:
  "nat_of_digits (ds @ [c]) = 10 * nat_of_digits ds + ((of_char c :: nat) - 48)"
  by (simp add: nat_of_digits_def)

lemma nat_of_digits_pos:
  "list_all is_digit ds \<Longrightarrow> ds \<noteq> [] \<Longrightarrow> hd ds \<noteq> CHR ''0'' \<Longrightarrow> 0 < nat_of_digits ds"
proof (induction ds rule: rev_induct)
  case Nil
  then show ?case by simp
next
  case (snoc c ds)
  show ?case
  proof (cases "ds = []")
    case True
    with snoc.prems show ?thesis
      using digit_value_pos [of c] by (simp add: nat_of_digits_def)
  next
    case False
    with snoc have "0 < nat_of_digits ds" by simp
    then show ?thesis by (simp add: nat_of_digits_snoc)
  qed
qed

lemma digits_of_nat_of_digits:
  "canonical ds \<Longrightarrow> digits_of_nat (nat_of_digits ds) = ds"
proof (induction ds rule: rev_induct)
  case Nil
  then show ?case by (simp add: canonical_def numeric_def)
next
  case (snoc c ds)
  from snoc.prems have dc: "is_digit c" and dds: "list_all is_digit ds"
    by (simp_all add: canonical_def numeric_def)
  show ?case
  proof (cases "ds = []")
    case True
    then show ?thesis
      using dc digits_of_nat.simps [of "of_char c - 48"]
      by (simp add: nat_of_digits_def digit_value_less digit_char_of_char)
  next
    case False
    with snoc.prems have hd: "hd ds \<noteq> CHR ''0''"
      by (auto simp: canonical_def)
    then have can: "canonical ds"
      using False dds by (simp add: canonical_def numeric_def)
    have pos: "0 < nat_of_digits ds"
      using dds False hd by (rule nat_of_digits_pos)
    let ?d = "(of_char c :: nat) - 48"
    let ?n = "10 * nat_of_digits ds + ?d"
    have d: "?d < 10" using dc by (rule digit_value_less)
    have "\<not> ?n < 10" using pos by simp
    moreover have "?n div 10 = nat_of_digits ds" using d by simp
    moreover have "?n mod 10 = ?d" using d by simp
    ultimately have "digits_of_nat ?n = digits_of_nat (nat_of_digits ds) @ [digit_char ?d]"
      using digits_of_nat.simps [of ?n] by simp
    then show ?thesis
      using snoc.IH [OF can] dc by (simp add: nat_of_digits_snoc digit_char_of_char)
  qed
qed

lemma split_on_not_Nil: "split_on c s \<noteq> []"
  by (induction s) (auto split: list.splits)

lemma join_Cons2: "join sep (x # y # ys) = x @ sep @ join sep (y # ys)"
  by simp

lemma join_Cons_Cons: "join sep ((x # l) # ls) = x # join sep (l # ls)"
  by (cases ls) simp_all

lemma join_split_on: "join [c] (split_on c s) = s"
proof (induction s)
  case Nil
  then show ?case by simp
next
  case (Cons x xs)
  obtain l ls where sp: "split_on c xs = l # ls"
    using split_on_not_Nil [of c xs] by (cases "split_on c xs") auto
  show ?case
    using Cons.IH by (simp add: sp join_Cons_Cons join_Cons2 del: join.simps)
qed

lemma split_on_three:
  "split_on CHR ''.'' s = [a, b, c] \<Longrightarrow> s = a @ ''.'' @ b @ ''.'' @ c"
  using join_split_on [of "CHR ''.''" s] by simp

lemma rev_dropWhile_takeWhile:
  "rev (dropWhile P (rev s)) @ rev (takeWhile P (rev s)) = s"
proof -
  have "rev (takeWhile P (rev s) @ dropWhile P (rev s)) = rev (rev s)"
    by (simp only: takeWhile_dropWhile_id)
  then show ?thesis
    by (simp only: rev_append rev_rev_ident)
qed

lemma parse_suffix_Inr: "parse_suffix seg = Inr (label, digits) \<Longrightarrow> label @ digits = seg"
proof -
  assume "parse_suffix seg = Inr (label, digits)"
  then have "label = rev (dropWhile is_digit (rev seg))"
    "digits = rev (takeWhile is_digit (rev seg))"
    by (auto simp: parse_suffix_def Let_def split: if_splits)
  then show ?thesis
    by (simp only: rev_dropWhile_takeWhile)
qed

lemma split_at_dash:
  "dropWhile (\<lambda>c. c \<noteq> CHR ''-'') text \<noteq> [] \<Longrightarrow>
   text = takeWhile (\<lambda>c. c \<noteq> CHR ''-'') text @ ''-'' @ tl (dropWhile (\<lambda>c. c \<noteq> CHR ''-'') text)"
proof -
  let ?r = "dropWhile (\<lambda>c. c \<noteq> CHR ''-'') text"
  assume ne: "?r \<noteq> []"
  then have "\<not> (hd ?r \<noteq> CHR ''-'')" by (rule hd_dropWhile)
  then have "?r = CHR ''-'' # tl ?r" using ne by (cases ?r) simp_all
  then have "takeWhile (\<lambda>c. c \<noteq> CHR ''-'') text @ ''-'' @ tl ?r
             = takeWhile (\<lambda>c. c \<noteq> CHR ''-'') text @ ?r"
    by simp
  then show ?thesis by simp
qed

lemma segments_text:
  assumes "segments text = Inr (a, b, c, s)"
  shows "text = a @ ''.'' @ b @ ''.'' @ c @
           (case s of None \<Rightarrow> [] | Some (label, digits) \<Rightarrow> ''-'' @ label @ digits)"
proof -
  let ?t = "takeWhile (\<lambda>c. c \<noteq> CHR ''-'') text"
  let ?r = "dropWhile (\<lambda>c. c \<noteq> CHR ''-'') text"
  from assms have three: "split_on CHR ''.'' ?t = [a, b, c]"
    by (auto simp: segments_def Let_def split: list.splits if_splits sum.splits)
  then have t: "?t = a @ ''.'' @ b @ ''.'' @ c" by (rule split_on_three)
  show ?thesis
  proof (cases "?r = []")
    case True
    then have "s = None" using assms three
      by (auto simp: segments_def Let_def split: if_splits)
    moreover have "?t @ ?r = text"
      by (rule takeWhile_dropWhile_id)
    then have "?t @ [] = text"
      by (simp only: True)
    then have "text = ?t"
      by (simp only: append_Nil2)
    ultimately show ?thesis using t by simp
  next
    case False
    then obtain label digits where s: "s = Some (label, digits)"
      and ps: "parse_suffix (tl ?r) = Inr (label, digits)"
      using assms three
      by (auto simp: segments_def Let_def split: if_splits sum.splits)
    have "text = ?t @ ''-'' @ tl ?r" using False by (rule split_at_dash)
    then show ?thesis
      using t parse_suffix_Inr [OF ps] s by simp
  qed
qed

lemma segments_canonical:
  assumes "segments text = Inr (a, b, c, s)"
  shows "canonical a \<and> canonical b \<and> canonical c \<and>
         (case s of None \<Rightarrow> True | Some (label, digits) \<Rightarrow> digits = [] \<or> canonical digits)"
proof -
  from assms have abc: "canonical a \<and> canonical b \<and> canonical c"
    by (auto simp: segments_def Let_def split: list.splits if_splits sum.splits)
  have "digits = [] \<or> canonical digits" if "s = Some (label, digits)" for label digits
  proof -
    from assms that have "parse_suffix (tl (dropWhile (\<lambda>c. c \<noteq> CHR ''-'') text))
        = Inr (label, digits)"
      by (auto simp: segments_def Let_def split: list.splits if_splits sum.splits)
    then show ?thesis
      by (auto simp: parse_suffix_def Let_def split: if_splits)
  qed
  then show ?thesis
    using abc by (auto split: option.splits)
qed

text \<open>A numeral with a leading zero is malformed.\<close>

lemma Parse_rejects_leading_zero: "Parse ''01.2.3'' = Inl ParseError"
  by (simp add: Parse_def segments_def canonical_def numeric_def is_digit_def)

text \<open>
  Claim C8.  For every valid version string, that is every text \<open>Parse\<close> accepts,
  rendering the parsed version gives the text back: the suffix segment is there exactly
  when the suffix is set, and the trailing number exactly when \<open>suffix_number\<close> is set.
\<close>

theorem render_parse_round_trip:
  assumes "Parse text = Inr v"
  shows "Render v = text"
proof -
  from assms obtain a b c s where seg: "segments text = Inr (a, b, c, s)"
    by (auto simp: Parse_def split: sum.splits)
  from segments_canonical [OF seg] have can: "canonical a" "canonical b" "canonical c"
    and cs: "case s of None \<Rightarrow> True | Some (label, digits) \<Rightarrow> digits = [] \<or> canonical digits"
    by simp_all
  have v: "v = \<lparr> major = nat_of_digits a, minor = nat_of_digits b, patch = nat_of_digits c,
                suffix = map_option fst s,
                suffix_number =
                  (case s of
                     None \<Rightarrow> None
                   | Some (label, digits) \<Rightarrow>
                       if digits = [] then None else Some (nat_of_digits digits)) \<rparr>"
    using assms seg by (simp add: Parse_def)
  have "Render v = a @ ''.'' @ b @ ''.'' @ c @
           (case s of None \<Rightarrow> [] | Some (label, digits) \<Rightarrow> ''-'' @ label @ digits)"
    using can cs
    by (auto simp: v Render_def digits_of_nat_of_digits split: option.splits)
  also have "\<dots> = text"
    using segments_text [OF seg] by simp
  finally show ?thesis .
qed

theorem render_parse_round_trip_witness:
  "Parse ''1.2.3-dev4''
     = Inr \<lparr> major = 1, minor = 2, patch = 3, suffix = Some ''dev'', suffix_number = Some 4 \<rparr> \<and>
   Render \<lparr> major = 1, minor = 2, patch = 3, suffix = Some ''dev'', suffix_number = Some 4 \<rparr>
     = ''1.2.3-dev4''"
proof -
  have p: "Parse ''1.2.3-dev4''
     = Inr \<lparr> major = 1, minor = 2, patch = 3, suffix = Some ''dev'', suffix_number = Some 4 \<rparr>"
    by (simp add: Parse_def segments_def parse_suffix_def canonical_def numeric_def is_digit_def
        nat_of_digits_def)
  show ?thesis
    using p render_parse_round_trip [OF p] by simp
qed

end
